theory Spec2Isabelle
  imports Main "HOL-Library.Word"
begin

section \<open>The variant of \<open>tox/core/variant.h\<close>\<close>

text \<open>
  \<open>variant_storage<Tag, Head, Tail...>\<close> is a union of a \<open>variant_member<Tag, Head>\<close>
  (a tag and a value of type \<open>Head\<close>) and the storage of the remaining alternatives,
  \<open>variant_storage<Tag, Tail...>\<close>. Every member function recurses over the list of
  alternative types, so the embedding takes that list as an explicit argument \<open>Head # Tail\<close>:
  \<open>'t\<close> is the type of the names of C++ types, \<open>'v\<close> the universe of payload values, and
  \<open>'a word\<close> the unsigned integer type \<open>Tag\<close> (\<open>variant<Types...>\<close> fixes it to
  \<open>unsigned char\<close>, that is \<open>8 word\<close>).
\<close>

subsection \<open>Tags\<close>

text \<open>\<open>static Tag const index = sizeof... (Tail)\<close>: the conversion to \<open>Tag\<close> wraps.\<close>

definition index :: "'t list \<Rightarrow> 'a::len word" where
  "index Tail = of_nat (length Tail)"

text \<open>\<open>static Tag const invalid_index = -1\<close>.\<close>

definition invalid_index :: "'a::len word" where
  "invalid_index = - 1"

text \<open>
  \<open>static_assert (static_cast<std::size_t> (index) == sizeof... (Tail) && index < invalid_index)\<close>
  of the instantiation at \<open>Head, Tail...\<close>.
\<close>

definition static_assert :: "'a::len itself \<Rightarrow> 't list \<Rightarrow> bool" where
  "static_assert tg Tail \<longleftrightarrow>
     unat (index Tail :: 'a word) = length Tail \<and> (index Tail :: 'a word) < invalid_index"

text \<open>
  The union has a member of type \<open>variant_storage<Tag, Tail...>\<close>, so instantiating it
  instantiates every suffix of the list, and the program compiles only if the static
  assertion of each of them holds. The empty list has none.
\<close>

fun instantiable :: "'a::len itself \<Rightarrow> 't list \<Rightarrow> bool" where
  "instantiable tg (Head # Tail) \<longleftrightarrow> static_assert tg Tail \<and> instantiable tg Tail"
| "instantiable tg [] \<longleftrightarrow> True"

text \<open>The \<open>index\<close> constants of the instantiations, in the order of the type list.\<close>

fun tags :: "'t list \<Rightarrow> 'a::len word list" where
  "tags (Head # Tail) = index Tail # tags Tail"
| "tags [] = []"

text \<open>
  The tag of the alternative \<open>T\<close>: the \<open>index\<close> of the instantiation whose constructor
  \<open>variant_storage (Head const &)\<close> is selected for an argument of type \<open>T\<close>. At every other
  level the template constructor passes the argument on to \<open>tail\<close>.
\<close>

fun tag_of :: "'t list \<Rightarrow> 't \<Rightarrow> 'a::len word option" where
  "tag_of (Head # Tail) T = (if T = Head then Some (index Tail) else tag_of Tail T)"
| "tag_of [] T = None"

subsection \<open>Memory, payload objects and outcomes\<close>

text \<open>
  A cell is the memory of one variant: the tag, which every level of the union reads as
  \<open>head.tag\<close>, and the payload object that is alive in the overlaid storage, with its type
  (\<open>None\<close> when no payload object is alive there). Cells live at addresses, and the trace
  records every constructor and destructor call that a variant makes on a payload object in
  its storage, with the address of the variant, and every call of a handler.
\<close>

type_synonym addr = nat

datatype ('t, 'v) event =
    CopyCtor addr 't 'v
  | MoveCtor addr 't 'v
  | Dtor addr 't 'v
  | Call 't 'v

record ('g, 't, 'v) cell =
  tag :: 'g
  payload :: "('t \<times> 'v) option"

record ('g, 't, 'v) state =
  mem :: "addr \<Rightarrow> ('g, 't, 'v) cell"
  trace :: "('t, 'v) event list"

text \<open>
  The payload types are supplied by the user of the variant. Their copy and move constructors
  may throw; a copy that does not throw yields an equal value, and a move leaves
  \<open>moved_from T x\<close> behind in its source. Destructors do not throw.
\<close>

record ('t, 'v) payload_ops =
  copy_throws :: "'t \<Rightarrow> 'v \<Rightarrow> bool"
  move_throws :: "'t \<Rightarrow> 'v \<Rightarrow> bool"
  moved_from :: "'t \<Rightarrow> 'v \<Rightarrow> 'v"

text \<open>
  How a call ends: it returns, an exception of a payload type leaves it (with the state it
  leaves behind), an \<open>assert\<close> fails and the process is aborted, the behaviour is undefined
  (a payload is read or destroyed as a type that is not alive in the storage), or the call
  does not compile. Assertions are compiled in (no \<open>NDEBUG\<close>).
\<close>

datatype ('x, 's) outcome =
    Returns 'x
  | Throws 's
  | AssertionFailed
  | Undefined
  | IllFormed

fun and_then :: "('s, 's) outcome \<Rightarrow> ('s \<Rightarrow> ('x, 's) outcome) \<Rightarrow> ('x, 's) outcome" where
  "and_then (Returns s) f = f s"
| "and_then (Throws s) f = Throws s"
| "and_then AssertionFailed f = AssertionFailed"
| "and_then Undefined f = Undefined"
| "and_then IllFormed f = IllFormed"

definition set_tag ::
  "addr \<Rightarrow> 'a::len word \<Rightarrow> ('a word, 't, 'v) state \<Rightarrow> ('a word, 't, 'v) state" where
  "set_tag p t s = s\<lparr>mem := (mem s)(p := (mem s p)\<lparr>tag := t\<rparr>)\<rparr>"

definition set_payload ::
  "addr \<Rightarrow> ('t \<times> 'v) option \<Rightarrow> ('a::len word, 't, 'v) state \<Rightarrow> ('a word, 't, 'v) state" where
  "set_payload p obj s = s\<lparr>mem := (mem s)(p := (mem s p)\<lparr>payload := obj\<rparr>)\<rparr>"

definition emit :: "('t, 'v) event \<Rightarrow> ('a::len word, 't, 'v) state \<Rightarrow> ('a word, 't, 'v) state" where
  "emit e s = s\<lparr>trace := trace s @ [e]\<rparr>"

subsection \<open>\<open>variant_member\<close>\<close>

text \<open>
  \<open>head { index, head }\<close>: the members are initialised in their order, the tag and then the
  value, by the copy constructor of \<open>Head\<close>. When that constructor throws, the tag has
  been written and no payload is alive.
\<close>

definition member_init ::
  "('t, 'v) payload_ops \<Rightarrow> 't \<Rightarrow> 'a::len word \<Rightarrow> addr \<Rightarrow> 'v \<Rightarrow> ('a word, 't, 'v) state
    \<Rightarrow> (('a word, 't, 'v) state, ('a word, 't, 'v) state) outcome" where
  "member_init P Head i this x s =
     (let s1 = set_tag this i s in
      if copy_throws P Head x then Throws s1
      else Returns (emit (CopyCtor this Head x) (set_payload this (Some (Head, x)) s1)))"

text \<open>
  The implicit copy and move constructors of \<open>variant_member<Tag, Head>\<close>. They read
  \<open>rhs.value\<close> as a \<open>Head\<close>.
\<close>

definition member_copy ::
  "('t, 'v) payload_ops \<Rightarrow> 't \<Rightarrow> addr \<Rightarrow> addr \<Rightarrow> ('a::len word, 't, 'v) state
    \<Rightarrow> (('a word, 't, 'v) state, ('a word, 't, 'v) state) outcome" where
  "member_copy P Head this rhs s =
     (let s1 = set_tag this (tag (mem s rhs)) s in
      case payload (mem s1 rhs) of
        None \<Rightarrow> Undefined
      | Some (T, x) \<Rightarrow>
          if T \<noteq> Head then Undefined
          else if copy_throws P Head x then Throws s1
          else Returns (emit (CopyCtor this Head x) (set_payload this (Some (Head, x)) s1)))"

definition member_move ::
  "('t, 'v) payload_ops \<Rightarrow> 't \<Rightarrow> addr \<Rightarrow> addr \<Rightarrow> ('a::len word, 't, 'v) state
    \<Rightarrow> (('a word, 't, 'v) state, ('a word, 't, 'v) state) outcome" where
  "member_move P Head this rhs s =
     (let s1 = set_tag this (tag (mem s rhs)) s in
      case payload (mem s1 rhs) of
        None \<Rightarrow> Undefined
      | Some (T, x) \<Rightarrow>
          if T \<noteq> Head then Undefined
          else if move_throws P Head x then Throws s1
          else Returns (emit (MoveCtor this Head x)
                 (set_payload this (Some (Head, x))
                   (set_payload rhs (Some (Head, moved_from P Head x)) s1))))"

text \<open>\<open>head.value.~Head ()\<close>.\<close>

definition value_dtor ::
  "'t \<Rightarrow> addr \<Rightarrow> ('a::len word, 't, 'v) state
    \<Rightarrow> (('a word, 't, 'v) state, ('a word, 't, 'v) state) outcome" where
  "value_dtor Head this s =
     (case payload (mem s this) of
        None \<Rightarrow> Undefined
      | Some (T, x) \<Rightarrow>
          if T \<noteq> Head then Undefined
          else Returns (emit (Dtor this Head x) (set_payload this None s)))"

subsection \<open>\<open>variant_storage\<close>\<close>

text \<open>
  \<open>explicit variant_storage (Head const &head) : head { index, head }\<close> and
  \<open>template<typename T> explicit variant_storage (T const &value) : tail (value)\<close>; the
  constructor of the empty union is rejected by its \<open>static_assert\<close>.
\<close>

fun ctor_value ::
  "'t list \<Rightarrow> ('t, 'v) payload_ops \<Rightarrow> addr \<Rightarrow> 't \<Rightarrow> 'v \<Rightarrow> ('a::len word, 't, 'v) state
    \<Rightarrow> (('a word, 't, 'v) state, ('a word, 't, 'v) state) outcome" where
  "ctor_value (Head # Tail) P this T x s =
     (if T = Head then member_init P Head (index Tail) this x s
      else ctor_value Tail P this T x s)"
| "ctor_value [] P this T x s = IllFormed"

text \<open>\<open>variant_storage () { head.tag = invalid_index; }\<close>\<close>

definition ctor_default :: "addr \<Rightarrow> ('a::len word, 't, 'v) state \<Rightarrow> ('a word, 't, 'v) state" where
  "ctor_default this s = set_tag this invalid_index s"

text \<open>\<open>assert (head.tag == rhs.head.tag)\<close>\<close>

definition assert_tags ::
  "addr \<Rightarrow> addr \<Rightarrow> ('a::len word, 't, 'v) state
    \<Rightarrow> (('a word, 't, 'v) state, ('a word, 't, 'v) state) outcome" where
  "assert_tags this rhs s =
     (if tag (mem s this) = tag (mem s rhs) then Returns s else AssertionFailed)"

text \<open>
  The move and the copy constructor. All members of the union start at the address of
  the variant, so the constructor of \<open>tail\<close> works on the same cell. The empty union
  \<open>variant_storage<Tag>\<close> declares neither constructor: its implicit ones have no member to
  copy, and write nothing.
\<close>

fun ctor_move ::
  "'t list \<Rightarrow> ('t, 'v) payload_ops \<Rightarrow> addr \<Rightarrow> addr \<Rightarrow> ('a::len word, 't, 'v) state
    \<Rightarrow> (('a word, 't, 'v) state, ('a word, 't, 'v) state) outcome" where
  "ctor_move (Head # Tail) P this rhs s =
     and_then
       (if tag (mem s rhs) = index Tail then member_move P Head this rhs s
        else ctor_move Tail P this rhs s)
       (assert_tags this rhs)"
| "ctor_move [] P this rhs s = Returns s"

fun ctor_copy ::
  "'t list \<Rightarrow> ('t, 'v) payload_ops \<Rightarrow> addr \<Rightarrow> addr \<Rightarrow> ('a::len word, 't, 'v) state
    \<Rightarrow> (('a word, 't, 'v) state, ('a word, 't, 'v) state) outcome" where
  "ctor_copy (Head # Tail) P this rhs s =
     and_then
       (if tag (mem s rhs) = index Tail then member_copy P Head this rhs s
        else ctor_copy Tail P this rhs s)
       (assert_tags this rhs)"
| "ctor_copy [] P this rhs s = Returns s"

text \<open>\<open>~variant_storage ()\<close>; the destructor of the empty union is trivial.\<close>

fun dtor ::
  "'t list \<Rightarrow> addr \<Rightarrow> ('a::len word, 't, 'v) state
    \<Rightarrow> (('a word, 't, 'v) state, ('a word, 't, 'v) state) outcome" where
  "dtor (Head # Tail) this s =
     (if tag (mem s this) = index Tail then value_dtor Head this s
      else dtor Tail this s)"
| "dtor [] this s = Returns s"

text \<open>\<open>operator =\<close>: destroy self, then renew self by placement new.\<close>

definition assign ::
  "'t list \<Rightarrow> ('t, 'v) payload_ops \<Rightarrow> addr \<Rightarrow> 't \<Rightarrow> 'v \<Rightarrow> ('a::len word, 't, 'v) state
    \<Rightarrow> (('a word, 't, 'v) state, ('a word, 't, 'v) state) outcome" where
  "assign ts P this T x s = and_then (dtor ts this s) (ctor_value ts P this T x)"

definition empty_variant :: "addr \<Rightarrow> ('a::len word, 't, 'v) state \<Rightarrow> bool" where
  "empty_variant this s \<longleftrightarrow> tag (mem s this) = invalid_index"

definition clear ::
  "'t list \<Rightarrow> addr \<Rightarrow> ('a::len word, 't, 'v) state
    \<Rightarrow> (('a word, 't, 'v) state, ('a word, 't, 'v) state) outcome" where
  "clear ts this s = and_then (dtor ts this s) (\<lambda>s'. Returns (set_tag this invalid_index s'))"

subsection \<open>Visitors and dispatch\<close>

text \<open>
  A visitor is called with a value of a static type: \<open>v T x s\<close> is how the call \<open>v (x)\<close>
  with \<open>x\<close> of type \<open>T\<close> ends in the state \<open>s\<close>.
\<close>

type_synonym ('a, 't, 'v, 'r) visitor =
  "'t \<Rightarrow> 'v \<Rightarrow> ('a word, 't, 'v) state
    \<Rightarrow> ('r \<times> ('a word, 't, 'v) state, ('a word, 't, 'v) state) outcome"

text \<open>
  \<open>variant_visitor<Result, Head, Tail...>\<close> is built from one function per alternative:
  its constructor takes the function of \<open>Head\<close> and passes the others on to the constructor
  of \<open>variant_visitor<Result, Tail...>\<close>, and \<open>variant_visitor<Result>\<close> is constructed from
  none. So the construction compiles only with as many functions as there are alternatives.
\<close>

fun variant_visitor_ctor :: "'t list \<Rightarrow> ('v \<Rightarrow> 'r) list \<Rightarrow> bool" where
  "variant_visitor_ctor (Head # Tail) (head_fun # tail_fun) \<longleftrightarrow> variant_visitor_ctor Tail tail_fun"
| "variant_visitor_ctor [] [] \<longleftrightarrow> True"
| "variant_visitor_ctor [] (head_fun # tail_fun) \<longleftrightarrow> False"
| "variant_visitor_ctor (Head # Tail) [] \<longleftrightarrow> False"

text \<open>
  The call operators. \<open>variant_visitor<Result, Head, Tail...>\<close> inherits those of
  \<open>variant_visitor<Result, Tail...>\<close>; its own, \<open>operator () (Head const &value)\<close>, returns
  \<open>head_fun_ (value)\<close>, and \<open>variant_visitor<Result>\<close> has none that takes a value.
  \<open>head_fun_\<close> is a \<open>std::function<Result (Head)>\<close>, which takes its argument by value: the
  call copy-constructs a \<open>Head\<close> from \<open>value\<close> before the handler runs, so an exception of
  that copy constructor leaves the call with no handler called. The handler is a function
  of the payload value it is given, and the event \<open>Call Head x\<close> records that the handler
  of \<open>Head\<close> has been called with \<open>x\<close>. The argument object is a temporary of the call and
  not an object in the storage of a variant; the trace does not record it.
\<close>

fun variant_visitor_call ::
  "('t, 'v) payload_ops \<Rightarrow> 't list \<Rightarrow> ('v \<Rightarrow> 'r) list \<Rightarrow> ('a::len, 't, 'v, 'r) visitor" where
  "variant_visitor_call P (Head # Tail) (head_fun # tail_fun) T x s =
     (if T = Head then
        (if copy_throws P Head x then Throws s
         else Returns (head_fun x, emit (Call Head x) s))
      else variant_visitor_call P Tail tail_fun T x s)"
| "variant_visitor_call P [] tail_fun T x s = IllFormed"
| "variant_visitor_call P (Head # Tail) [] T x s = IllFormed"

text \<open>The visitor that \<open>variant_visitor<Result, Types...> (funs...)\<close> constructs.\<close>

definition variant_visitor ::
  "('t, 'v) payload_ops \<Rightarrow> 't list \<Rightarrow> ('v \<Rightarrow> 'r) list \<Rightarrow> ('a::len, 't, 'v, 'r) visitor" where
  "variant_visitor P ts hs T x s =
     (if variant_visitor_ctor ts hs then variant_visitor_call P ts hs T x s else IllFormed)"

text \<open>
  \<open>dispatch\<close>; the one of the empty union is \<open>assert (!"Attempted to visit empty variant")\<close>.
\<close>

fun dispatch ::
  "'t list \<Rightarrow> ('a::len, 't, 'v, 'r) visitor \<Rightarrow> addr \<Rightarrow> ('a word, 't, 'v) state
    \<Rightarrow> ('r \<times> ('a word, 't, 'v) state, ('a word, 't, 'v) state) outcome" where
  "dispatch (Head # Tail) v this s =
     (if tag (mem s this) = index Tail then
        (case payload (mem s this) of
           None \<Rightarrow> Undefined
         | Some (T, x) \<Rightarrow> if T \<noteq> Head then Undefined else v Head x s)
      else dispatch Tail v this s)"
| "dispatch [] v this s = AssertionFailed"

text \<open>
  The three public entry points, which only the non-empty instantiation has:
  \<open>operator () (Visitor const &v)\<close>, \<open>visit (visitor<Result> const &v)\<close>, and
  \<open>visit<Result> ()\<close>, whose result holds a reference to the variant (the member
  \<open>variant_\<close>) and dispatches in its \<open>operator >>=\<close>.
\<close>

fun call_operator ::
  "'t list \<Rightarrow> ('a::len, 't, 'v, 'r) visitor \<Rightarrow> addr \<Rightarrow> ('a word, 't, 'v) state
    \<Rightarrow> ('r \<times> ('a word, 't, 'v) state, ('a word, 't, 'v) state) outcome" where
  "call_operator (Head # Tail) v this s = dispatch (Head # Tail) v this s"
| "call_operator [] v this s = IllFormed"

fun visit ::
  "'t list \<Rightarrow> ('a::len, 't, 'v, 'r) visitor \<Rightarrow> addr \<Rightarrow> ('a word, 't, 'v) state
    \<Rightarrow> ('r \<times> ('a word, 't, 'v) state, ('a word, 't, 'v) state) outcome" where
  "visit (Head # Tail) v this s = dispatch (Head # Tail) v this s"
| "visit [] v this s = IllFormed"

record visitor_accept =
  variant_ref :: addr

definition visit_accept :: "addr \<Rightarrow> visitor_accept" where
  "visit_accept this = \<lparr>variant_ref = this\<rparr>"

fun accept_bind ::
  "'t list \<Rightarrow> visitor_accept \<Rightarrow> ('a::len, 't, 'v, 'r) visitor \<Rightarrow> ('a word, 't, 'v) state
    \<Rightarrow> ('r \<times> ('a word, 't, 'v) state, ('a word, 't, 'v) state) outcome" where
  "accept_bind (Head # Tail) acc v s = dispatch (Head # Tail) v (variant_ref acc) s"
| "accept_bind [] acc v s = IllFormed"

text \<open>A cell holds the value \<open>x\<close> of the alternative \<open>T\<close>.\<close>

definition holds :: "'t list \<Rightarrow> ('a::len word, 't, 'v) cell \<Rightarrow> 't \<Rightarrow> 'v \<Rightarrow> bool" where
  "holds ts c T x \<longleftrightarrow> tag_of ts T = Some (tag c) \<and> payload c = Some (T, x)"

subsection \<open>A concrete instance\<close>

text \<open>
  A \<open>variant\<close> of three alternatives, here named 10, 20 and 30, with natural numbers as
  payload values. Copying the value 0 throws, moving never does and leaves 0 behind. The
  memory \<open>blank\<close> is zeroed and holds no object. The three handlers add 100, 200 and 300.
  In \<open>held\<close> a variant has been constructed at address 0 from the value 7 of the
  alternative 20, and in \<open>cleared\<close> it has been cleared again.
\<close>

definition three :: "nat list" where
  "three = [10, 20, 30]"

definition ops :: "(nat, nat) payload_ops" where
  "ops = \<lparr>copy_throws = (\<lambda>T x. x = 0), move_throws = (\<lambda>T x. False), moved_from = (\<lambda>T x. 0)\<rparr>"

definition blank :: "(8 word, nat, nat) state" where
  "blank = \<lparr>mem = (\<lambda>p. \<lparr>tag = 0, payload = None\<rparr>), trace = []\<rparr>"

definition handlers :: "(nat \<Rightarrow> nat) list" where
  "handlers = [(\<lambda>x. x + 100), (\<lambda>x. x + 200), (\<lambda>x. x + 300)]"

definition held :: "(8 word, nat, nat) state" where
  "held = emit (CopyCtor 0 20 7) (set_payload 0 (Some (20, 7)) (set_tag 0 1 blank))"

definition cleared :: "(8 word, nat, nat) state" where
  "cleared = set_tag 0 255 (emit (Dtor 0 20 7) (set_payload 0 None held))"

section \<open>Properties\<close>

subsection \<open>Tags\<close>

text \<open>
  The static assertions hold exactly when the list has fewer than \<open>2 ^ LENGTH('a)\<close> types:
  at most 255 for \<open>variant\<close>.
\<close>

lemma static_assert_iff:
  "static_assert TYPE('a::len) Tail \<longleftrightarrow> Suc (length Tail) < 2 ^ LENGTH('a)"
proof -
  have m: "unat (- 1 :: 'a word) = 2 ^ LENGTH('a) - 1"
    by (simp add: unsigned_minus_1_eq_mask mask_eq_exp_minus_1)
  show ?thesis
    unfolding static_assert_def index_def invalid_index_def word_less_nat_alt m unat_of_nat
    by auto
qed

lemma instantiable_iff:
  "instantiable TYPE('a::len) ts \<longleftrightarrow> length ts < 2 ^ LENGTH('a)"
  by (induction ts) (auto simp: static_assert_iff)

lemma unat_index:
  "static_assert TYPE('a::len) Tail \<Longrightarrow> unat (index Tail :: 'a word) = length Tail"
  by (simp add: static_assert_def)

lemma index_neq_invalid:
  "static_assert TYPE('a::len) Tail \<Longrightarrow> (index Tail :: 'a word) \<noteq> invalid_index"
  by (auto simp: static_assert_def)

lemma tag_of_bound:
  "tag_of ts T = Some (t :: 'a::len word) \<Longrightarrow> instantiable TYPE('a) ts \<Longrightarrow> unat t < length ts"
proof (induction ts)
  case Nil
  then show ?case by simp
next
  case (Cons Head Tail)
  show ?case
  proof (cases "T = Head")
    case True
    with Cons.prems show ?thesis by (auto simp: unat_index)
  next
    case False
    with Cons have "unat t < length Tail" by simp
    then show ?thesis by simp
  qed
qed

lemma tag_of_neq_index:
  assumes "tag_of Tail T = Some (t :: 'a::len word)" and "instantiable TYPE('a) (Head # Tail)"
  shows "t \<noteq> index Tail"
proof
  assume "t = index Tail"
  with assms have "unat t = length Tail" by (simp add: unat_index)
  moreover from assms have "unat t < length Tail" by (simp add: tag_of_bound)
  ultimately show False by simp
qed

lemma tag_of_neq_invalid:
  "tag_of ts T = Some (t :: 'a::len word) \<Longrightarrow> instantiable TYPE('a) ts \<Longrightarrow> t \<noteq> invalid_index"
  by (induction ts) (auto simp: index_neq_invalid split: if_splits)

lemma tag_of_member: "T \<in> set ts \<Longrightarrow> \<exists>t. tag_of ts T = Some t"
  by (induction ts) auto

lemma unat_tags:
  "instantiable TYPE('a::len) ts \<Longrightarrow> map unat (tags ts :: 'a word list) = rev [0..<length ts]"
  by (induction ts) (simp_all add: unat_index)

lemma invalid_notin_tags:
  "instantiable TYPE('a::len) ts \<Longrightarrow> (invalid_index :: 'a word) \<notin> set (tags ts)"
  by (induction ts) (auto dest: index_neq_invalid)

lemma length_tags [simp]: "length (tags ts) = length ts"
  by (induction ts) simp_all

lemma tag_of_nth:
  "distinct ts \<Longrightarrow> i < length ts \<Longrightarrow> tag_of ts (ts ! i) = Some (tags ts ! i)"
proof (induction ts arbitrary: i)
  case Nil
  then show ?case by simp
next
  case (Cons Head Tail)
  then show ?case by (cases i) auto
qed

subsection \<open>Memory and sequencing\<close>

lemma mem_set_tag [simp]:
  "mem (set_tag p t s) q = (if q = p then (mem s p)\<lparr>tag := t\<rparr> else mem s q)"
  by (simp add: set_tag_def)

lemma mem_set_payload [simp]:
  "mem (set_payload p obj s) q = (if q = p then (mem s p)\<lparr>payload := obj\<rparr> else mem s q)"
  by (simp add: set_payload_def)

lemma mem_emit [simp]: "mem (emit e s) = mem s"
  by (simp add: emit_def)

lemma trace_set_tag [simp]: "trace (set_tag p t s) = trace s"
  by (simp add: set_tag_def)

lemma trace_set_payload [simp]: "trace (set_payload p obj s) = trace s"
  by (simp add: set_payload_def)

lemma trace_emit [simp]: "trace (emit e s) = trace s @ [e]"
  by (simp add: emit_def)

lemma set_tag_same: "set_tag p (tag (mem s p)) s = s"
  by (simp add: set_tag_def)

lemma and_then_assert_twice:
  "and_then (and_then m (assert_tags this rhs)) (assert_tags this rhs) =
   and_then m (assert_tags this rhs)"
  by (cases m) (simp_all add: assert_tags_def)

lemma ctor_value_tag_of:
  "tag_of ts T = Some t \<Longrightarrow> ctor_value ts P this T x s = member_init P T t this x s"
  by (induction ts) (auto split: if_splits)

lemma ctor_value_not_alternative:
  "tag_of ts T = None \<Longrightarrow> ctor_value ts P this T x s = IllFormed"
  by (induction ts) (auto split: if_splits)

lemma ctor_value_Returns:
  assumes "tag_of ts T = Some t" and "\<not> copy_throws P T x"
  shows "ctor_value ts P this T x s =
         Returns (emit (CopyCtor this T x) (set_payload this (Some (T, x)) (set_tag this t s)))"
  using assms by (simp add: ctor_value_tag_of member_init_def)

lemma ctor_value_ReturnsD:
  assumes "ctor_value ts P this T x s = Returns s1"
  shows "\<exists>t. tag_of ts T = Some t \<and> \<not> copy_throws P T x \<and>
             s1 = emit (CopyCtor this T x) (set_payload this (Some (T, x)) (set_tag this t s))"
proof (cases "tag_of ts T :: 'a word option")
  case None
  with assms show ?thesis by (simp add: ctor_value_not_alternative)
next
  case (Some t)
  with assms show ?thesis
    by (auto simp: ctor_value_tag_of member_init_def Let_def split: if_splits)
qed

lemma ctor_value_holds:
  assumes "ctor_value ts P this T x s = Returns s1"
  shows "holds ts (mem s1 this) T x"
  using ctor_value_ReturnsD [OF assms] by (auto simp: holds_def)

lemma dispatch_holds:
  fixes s :: "('a::len word, 't, 'v) state"
  assumes "instantiable TYPE('a) ts" and "holds ts (mem s this) T x"
  shows "dispatch ts v this s = v T x s"
  using assms
proof (induction ts)
  case Nil
  then show ?case by (simp add: holds_def)
next
  case (Cons Head Tail)
  show ?case
  proof (cases "T = Head")
    case True
    with Cons.prems show ?thesis by (simp add: holds_def)
  next
    case False
    with Cons.prems have t: "tag_of Tail T = Some (tag (mem s this))"
      by (simp add: holds_def)
    from tag_of_neq_index [OF t Cons.prems(1)] have "tag (mem s this) \<noteq> index Tail" .
    moreover have "holds Tail (mem s this) T x"
      using t Cons.prems(2) by (simp add: holds_def)
    ultimately show ?thesis using Cons by simp
  qed
qed

lemma dtor_holds:
  fixes s :: "('a::len word, 't, 'v) state"
  assumes "instantiable TYPE('a) ts" and "holds ts (mem s this) T x"
  shows "dtor ts this s = Returns (emit (Dtor this T x) (set_payload this None s))"
  using assms
proof (induction ts)
  case Nil
  then show ?case by (simp add: holds_def)
next
  case (Cons Head Tail)
  show ?case
  proof (cases "T = Head")
    case True
    with Cons.prems show ?thesis by (simp add: holds_def value_dtor_def)
  next
    case False
    with Cons.prems have t: "tag_of Tail T = Some (tag (mem s this))"
      by (simp add: holds_def)
    from tag_of_neq_index [OF t Cons.prems(1)] have "tag (mem s this) \<noteq> index Tail" .
    moreover have "holds Tail (mem s this) T x"
      using t Cons.prems(2) by (simp add: holds_def)
    ultimately show ?thesis using Cons by simp
  qed
qed

lemma ctor_copy_holds:
  fixes s :: "('a::len word, 't, 'v) state"
  assumes "instantiable TYPE('a) ts" and "holds ts (mem s rhs) T x"
  shows "ctor_copy ts P this rhs s =
         and_then (member_copy P T this rhs s) (assert_tags this rhs)"
  using assms
proof (induction ts)
  case Nil
  then show ?case by (simp add: holds_def)
next
  case (Cons Head Tail)
  show ?case
  proof (cases "T = Head")
    case True
    with Cons.prems show ?thesis by (simp add: holds_def)
  next
    case False
    with Cons.prems have t: "tag_of Tail T = Some (tag (mem s rhs))"
      by (simp add: holds_def)
    from tag_of_neq_index [OF t Cons.prems(1)] have "tag (mem s rhs) \<noteq> index Tail" .
    moreover have "holds Tail (mem s rhs) T x"
      using t Cons.prems(2) by (simp add: holds_def)
    ultimately show ?thesis using Cons by (simp add: and_then_assert_twice)
  qed
qed

lemma ctor_move_holds:
  fixes s :: "('a::len word, 't, 'v) state"
  assumes "instantiable TYPE('a) ts" and "holds ts (mem s rhs) T x"
  shows "ctor_move ts P this rhs s =
         and_then (member_move P T this rhs s) (assert_tags this rhs)"
  using assms
proof (induction ts)
  case Nil
  then show ?case by (simp add: holds_def)
next
  case (Cons Head Tail)
  show ?case
  proof (cases "T = Head")
    case True
    with Cons.prems show ?thesis by (simp add: holds_def)
  next
    case False
    with Cons.prems have t: "tag_of Tail T = Some (tag (mem s rhs))"
      by (simp add: holds_def)
    from tag_of_neq_index [OF t Cons.prems(1)] have "tag (mem s rhs) \<noteq> index Tail" .
    moreover have "holds Tail (mem s rhs) T x"
      using t Cons.prems(2) by (simp add: holds_def)
    ultimately show ?thesis using Cons by (simp add: and_then_assert_twice)
  qed
qed

lemma dispatch_invalid:
  fixes s :: "('a::len word, 't, 'v) state"
  assumes "instantiable TYPE('a) ts" and "tag (mem s this) = invalid_index"
  shows "dispatch ts v this s = AssertionFailed"
  using assms by (induction ts) (auto dest: index_neq_invalid)

lemma dtor_invalid:
  fixes s :: "('a::len word, 't, 'v) state"
  assumes "instantiable TYPE('a) ts" and "tag (mem s this) = invalid_index"
  shows "dtor ts this s = Returns s"
  using assms by (induction ts) (auto dest: index_neq_invalid)

lemma variant_visitor_ctor_iff: "variant_visitor_ctor ts hs \<longleftrightarrow> length hs = length ts"
  by (induction ts hs rule: variant_visitor_ctor.induct) auto

lemma variant_visitor_call_nth:
  "distinct ts \<Longrightarrow> i < length ts \<Longrightarrow> length hs = length ts \<Longrightarrow>
   variant_visitor_call P ts hs (ts ! i) x s =
     (if copy_throws P (ts ! i) x then Throws s
      else Returns ((hs ! i) x, emit (Call (ts ! i) x) s))"
proof (induction ts arbitrary: hs i)
  case Nil
  then show ?case by simp
next
  case (Cons Head Tail)
  then obtain head_fun tail_fun where hs: "hs = head_fun # tail_fun"
    by (cases hs) auto
  with Cons show ?case by (cases i) auto
qed

lemma variant_visitor_nth:
  "distinct ts \<Longrightarrow> i < length ts \<Longrightarrow> length hs = length ts \<Longrightarrow>
   variant_visitor P ts hs (ts ! i) x s =
     (if copy_throws P (ts ! i) x then Throws s
      else Returns ((hs ! i) x, emit (Call (ts ! i) x) s))"
  by (simp add: variant_visitor_def variant_visitor_ctor_iff variant_visitor_call_nth)

lemma dispatch_copy_throws:
  fixes s :: "('a::len word, 't, 'v) state"
  assumes "instantiable TYPE('a) ts" and "distinct ts" and "i < length ts"
    and "length hs = length ts" and "holds ts (mem s this) (ts ! i) x"
    and "copy_throws P (ts ! i) x"
  shows "dispatch ts (variant_visitor P ts hs) this s = Throws s"
  using assms(6)
  by (simp only: dispatch_holds [OF assms(1,5)] variant_visitor_nth [OF assms(2-4)] if_True)

lemma variant_visitor_wrong_count:
  "length hs \<noteq> length ts \<Longrightarrow> variant_visitor P ts hs T x s = IllFormed"
  by (simp add: variant_visitor_def variant_visitor_ctor_iff)

subsection \<open>Frames\<close>

lemma dtor_frame:
  "dtor ts p s = Returns s' \<Longrightarrow> q \<noteq> p \<Longrightarrow> mem s' q = mem s q"
  by (induction ts) (auto simp: value_dtor_def split: if_splits option.splits)

lemma dtor_not_Throws: "dtor ts p s \<noteq> Throws s'"
  by (induction ts) (auto simp: value_dtor_def split: if_splits option.splits)

lemma ctor_value_frame:
  "ctor_value ts P p T x s = Returns s' \<or> ctor_value ts P p T x s = Throws s' \<Longrightarrow>
   q \<noteq> p \<Longrightarrow> mem s' q = mem s q"
  by (induction ts) (auto simp: member_init_def Let_def split: if_splits)

lemma assign_frame:
  assumes "assign ts P p T x s = Returns s' \<or> assign ts P p T x s = Throws s'" and "q \<noteq> p"
  shows "mem s' q = mem s q"
proof (cases "dtor ts p s")
  case (Returns sd)
  with assms(1) have "ctor_value ts P p T x sd = Returns s' \<or> ctor_value ts P p T x sd = Throws s'"
    by (simp add: assign_def)
  from ctor_value_frame [OF this assms(2)] dtor_frame [OF Returns assms(2)]
  show ?thesis by simp
next
  case (Throws sd)
  then show ?thesis by (simp add: dtor_not_Throws)
qed (use assms in \<open>simp_all add: assign_def\<close>)

lemma clear_frame:
  assumes "clear ts p s = Returns s'" and "q \<noteq> p"
  shows "mem s' q = mem s q"
proof (cases "dtor ts p s")
  case (Returns sd)
  with assms show ?thesis by (auto simp: clear_def dest: dtor_frame)
qed (use assms in \<open>simp_all add: clear_def\<close>)

lemma and_then_assert_ReturnsD:
  "and_then m (assert_tags p q) = Returns s' \<Longrightarrow> m = Returns s'"
  by (cases m) (auto simp: assert_tags_def split: if_splits)

lemma and_then_assert_ThrowsD:
  "and_then m (assert_tags p q) = Throws s' \<Longrightarrow> m = Throws s'"
  by (cases m) (auto simp: assert_tags_def split: if_splits)

lemma member_move_frame:
  "member_move P Head p q s = Returns s' \<or> member_move P Head p q s = Throws s' \<Longrightarrow>
   r \<noteq> p \<Longrightarrow> r \<noteq> q \<Longrightarrow> mem s' r = mem s r"
  by (auto simp: member_move_def Let_def split: option.splits if_splits)

lemma ctor_move_frame:
  "ctor_move ts P p q s = Returns s' \<or> ctor_move ts P p q s = Throws s' \<Longrightarrow>
   r \<noteq> p \<Longrightarrow> r \<noteq> q \<Longrightarrow> mem s' r = mem s r"
proof (induction ts)
  case Nil
  then show ?case by simp
next
  case (Cons Head Tail)
  let ?m = "if tag (mem s q) = index Tail then member_move P Head p q s
            else ctor_move Tail P p q s"
  from Cons.prems(1) have "?m = Returns s' \<or> ?m = Throws s'"
    by (auto dest: and_then_assert_ReturnsD and_then_assert_ThrowsD)
  then show ?case
    using Cons.IH Cons.prems(2,3) member_move_frame [of P Head p q s s' r]
    by (auto split: if_splits)
qed

subsection \<open>The concrete instance\<close>

lemma instantiable_three: "instantiable TYPE(8) three"
  by (simp add: three_def static_assert_iff)

lemma ctor_value_three: "ctor_value three ops 0 20 7 blank = Returns held"
  by (simp add: three_def ops_def member_init_def index_def held_def)

lemma holds_held: "holds three (mem held 0) 20 7"
  using ctor_value_three by (rule ctor_value_holds)

lemma invalid_index_8: "(invalid_index :: 8 word) = 255"
  by (simp add: invalid_index_def)

lemma clear_three: "clear three 0 held = Returns cleared"
  by (simp add: clear_def dtor_holds [OF instantiable_three holds_held] cleared_def invalid_index_8)

lemma empty_cleared: "empty_variant 0 cleared"
  by (simp add: empty_variant_def cleared_def invalid_index_8)

lemma empty_default_cleared:
  "empty_variant 2 (ctor_default 2 cleared)" "empty_variant 0 (ctor_default 2 cleared)"
  by (simp_all add: empty_variant_def ctor_default_def cleared_def invalid_index_8 held_def blank_def)

section \<open>The claims\<close>

text \<open>
  Claim C1. For the alternative at any position of a list of distinct types whose variant
  compiles, and any value of it that its copy constructor accepts: constructing a variant
  from the value returns, the tag is the tag of the alternative, and dispatch is then
  exactly one call of the visitor, on that value at that static type. With a
  \<open>variant_visitor\<close> built from one handler per alternative, that call copies the value
  once more for the handler, by the same copy constructor; dispatch returns the result of
  the handler at the position of the type, and the state after it is the one before with
  the single event of that handler's call appended: no other handler runs, and none runs
  twice.
\<close>

theorem construct_dispatch:
  fixes s :: "('a::len word, 't, 'v) state"
  assumes "instantiable TYPE('a) ts" and "distinct ts" and "i < length ts"
    and "length hs = length ts"
    and "\<not> copy_throws P (ts ! i) x"
  shows "\<exists>s1. ctor_value ts P this (ts ! i) x s = Returns s1 \<and>
           tag (mem s1 this) = tags ts ! i \<and>
           dispatch ts v this s1 = v (ts ! i) x s1 \<and>
           dispatch ts (variant_visitor P ts hs) this s1 =
             Returns ((hs ! i) x, emit (Call (ts ! i) x) s1)"
proof -
  let ?T = "ts ! i"
  let ?s1 = "emit (CopyCtor this ?T x)
               (set_payload this (Some (?T, x)) (set_tag this (tags ts ! i) s))"
  have t: "tag_of ts ?T = Some (tags ts ! i :: 'a word)"
    using assms(2,3) by (rule tag_of_nth)
  have c: "ctor_value ts P this ?T x s = Returns ?s1"
    using t assms(5) by (rule ctor_value_Returns)
  then have h: "holds ts (mem ?s1 this) ?T x"
    by (rule ctor_value_holds)
  have "tag (mem ?s1 this) = tags ts ! i"
    by simp
  moreover have "dispatch ts v this ?s1 = v ?T x ?s1"
    by (rule dispatch_holds [OF assms(1) h])
  moreover have "variant_visitor P ts hs ?T x ?s1 = Returns ((hs ! i) x, emit (Call ?T x) ?s1)"
    using assms(5) by (simp only: variant_visitor_nth [OF assms(2-4)] if_False)
  then have "dispatch ts (variant_visitor P ts hs) this ?s1 =
             Returns ((hs ! i) x, emit (Call ?T x) ?s1)"
    by (simp only: dispatch_holds [OF assms(1) h])
  ultimately show ?thesis using c by blast
qed

theorem construct_dispatch_witness:
  "\<not> copy_throws ops 20 7 \<and> ctor_value three ops 0 20 7 blank = Returns held \<and>
   tag (mem held 0) = 1 \<and>
   dispatch three (variant_visitor ops three handlers) 0 held = Returns (207, emit (Call 20 7) held)"
proof -
  have c: "\<not> copy_throws ops (three ! 1) 7"
    by (simp add: ops_def)
  have d: "distinct three" and l: "1 < length three" "length handlers = length three"
    by (simp_all add: three_def handlers_def)
  have n: "three ! 1 = 20" "(handlers ! 1) 7 = 207" "tags three ! 1 = (1 :: 8 word)"
    by (simp_all add: three_def handlers_def index_def)
  from construct_dispatch [OF instantiable_three d l c, of 0 blank, unfolded n]
  obtain s1 where "ctor_value three ops 0 20 7 blank = Returns s1"
    and "tag (mem s1 0) = 1"
    and "dispatch three (variant_visitor ops three handlers) 0 s1 = Returns (207, emit (Call 20 7) s1)"
    by blast
  moreover have "\<not> copy_throws ops 20 7"
    by (simp add: ops_def)
  ultimately show ?thesis
    by (simp add: ctor_value_three)
qed

text \<open>
  Claim C2. On an empty variant (the tag is \<open>invalid_index\<close>) of a type list that compiles,
  dispatch with any visitor matches no alternative, reaches the empty union and fails its
  assertion: it returns no result and throws nothing. The same holds for the three public
  entry points.
\<close>

theorem dispatch_empty_fatal:
  fixes s :: "('a::len word, 't, 'v) state"
  assumes "instantiable TYPE('a) ts" and "empty_variant this s"
  shows "dispatch ts v this s = AssertionFailed \<and>
         (ts \<noteq> [] \<longrightarrow>
            call_operator ts v this s = AssertionFailed \<and>
            visit ts v this s = AssertionFailed \<and>
            accept_bind ts (visit_accept this) v s = AssertionFailed)"
proof -
  from assms have d: "dispatch ts v this s = AssertionFailed"
    by (simp add: dispatch_invalid empty_variant_def)
  then show ?thesis
    by (cases ts) (simp_all add: visit_accept_def)
qed

theorem dispatch_empty_fatal_witness:
  "empty_variant 0 (ctor_default 0 blank) \<and> three \<noteq> [] \<and>
   dispatch three (variant_visitor ops three handlers) 0 (ctor_default 0 blank) = AssertionFailed \<and>
   call_operator three (variant_visitor ops three handlers) 0 (ctor_default 0 blank) = AssertionFailed \<and>
   visit three (variant_visitor ops three handlers) 0 (ctor_default 0 blank) = AssertionFailed \<and>
   accept_bind three (visit_accept 0) (variant_visitor ops three handlers) (ctor_default 0 blank)
     = AssertionFailed"
proof -
  have e: "empty_variant 0 (ctor_default 0 blank)"
    by (simp add: empty_variant_def ctor_default_def)
  have n: "three \<noteq> []" by (simp add: three_def)
  from dispatch_empty_fatal [OF instantiable_three e, of "variant_visitor ops three handlers"] e n
  show ?thesis by simp
qed

text \<open>
  Claim C3. For a list of distinct alternative types whose variant compiles (the static
  assertion of every instantiation holds), the tags are pairwise distinct, they are
  contiguous (read as numbers they are \<open>N - 1, \<dots>, 1, 0\<close> in the order of the list), the
  tag of the type at position \<open>i\<close> is its distance \<open>N - 1 - i\<close> from the end of the list, so
  that the last type has tag 0, and none of them is \<open>invalid_index\<close>.
\<close>

theorem tags_positional:
  assumes "instantiable TYPE('a::len) ts" and "distinct ts"
  shows "distinct (tags ts :: 'a word list) \<and>
         map unat (tags ts :: 'a word list) = rev [0..<length ts] \<and>
         (\<forall>i<length ts. tag_of ts (ts ! i) = Some (tags ts ! i :: 'a word) \<and>
                         unat (tags ts ! i :: 'a word) = length ts - 1 - i) \<and>
         (invalid_index :: 'a word) \<notin> set (tags ts)"
proof -
  have u: "map unat (tags ts :: 'a word list) = rev [0..<length ts]"
    using assms(1) by (rule unat_tags)
  have "distinct (map unat (tags ts :: 'a word list))"
    unfolding u by simp
  then have d: "distinct (tags ts :: 'a word list)"
    by (simp add: distinct_map)
  have n: "unat (tags ts ! i :: 'a word) = length ts - 1 - i" if "i < length ts" for i
  proof -
    have "unat (tags ts ! i :: 'a word) = map unat (tags ts :: 'a word list) ! i"
      using that by simp
    also have "\<dots> = length ts - 1 - i"
      unfolding u using that by (simp add: rev_nth)
    finally show ?thesis .
  qed
  show ?thesis
    using d u n assms by (simp add: tag_of_nth invalid_notin_tags)
qed

theorem tags_positional_witness:
  "instantiable TYPE(8) [10, 20, 30 :: nat] \<and> distinct [10, 20, 30 :: nat] \<and>
   (tags [10, 20, 30 :: nat] :: 8 word list) = [2, 1, 0] \<and>
   tag_of [10, 20, 30 :: nat] 30 = Some (0 :: 8 word) \<and>
   tag_of [10, 20, 30 :: nat] 10 = Some (2 :: 8 word) \<and>
   (invalid_index :: 8 word) = 255 \<and>
   (invalid_index :: 8 word) \<notin> set (tags [10, 20, 30 :: nat])"
proof -
  have i: "instantiable TYPE(8) [10, 20, 30 :: nat]" by (simp add: static_assert_iff)
  have d: "distinct [10, 20, 30 :: nat]" by simp
  show ?thesis
    using i d tags_positional [OF i d] by (simp add: index_def invalid_index_def)
qed

text \<open>
  Claim C4. Let a variant hold the value \<open>a1\<close> of the alternative \<open>A\<close>, and let a value
  \<open>b1\<close> of the alternative at position \<open>j\<close> be assigned to it. If the copy constructor of
  that alternative does not throw, the assignment returns; the trace gains the destructor
  call of \<open>a1\<close>, once, and after it the constructor call of the new payload; the tag is
  the tag of the new alternative, and dispatch calls its handler with \<open>b1\<close> and no other.
  If the copy constructor throws, the exception leaves the assignment after \<open>a1\<close> has
  been destroyed: no payload is alive in the variant, and nothing restores \<open>a1\<close>.
\<close>

theorem assign_replaces:
  fixes s :: "('a::len word, 't, 'v) state"
  assumes "instantiable TYPE('a) ts" and "distinct ts" and "j < length ts"
    and "length hs = length ts"
    and "holds ts (mem s this) A a1"
  shows "(\<not> copy_throws P (ts ! j) b1 \<longrightarrow>
            (\<exists>s'. assign ts P this (ts ! j) b1 s = Returns s' \<and>
                  trace s' = trace s @ [Dtor this A a1, CopyCtor this (ts ! j) b1] \<and>
                  tag (mem s' this) = tags ts ! j \<and>
                  payload (mem s' this) = Some (ts ! j, b1) \<and>
                  dispatch ts (variant_visitor P ts hs) this s' =
                    Returns ((hs ! j) b1, emit (Call (ts ! j) b1) s'))) \<and>
         (copy_throws P (ts ! j) b1 \<longrightarrow>
            (\<exists>s'. assign ts P this (ts ! j) b1 s = Throws s' \<and>
                  payload (mem s' this) = None \<and>
                  trace s' = trace s @ [Dtor this A a1]))"
proof -
  let ?B = "ts ! j"
  let ?sd = "emit (Dtor this A a1) (set_payload this None s)"
  have t: "tag_of ts ?B = Some (tags ts ! j :: 'a word)"
    using assms(2,3) by (rule tag_of_nth)
  have a: "assign ts P this ?B b1 s = member_init P ?B (tags ts ! j) this b1 ?sd"
    by (simp add: assign_def dtor_holds [OF assms(1,5)] ctor_value_tag_of [OF t])
  show ?thesis
  proof (cases "copy_throws P ?B b1")
    case True
    then show ?thesis by (simp add: a member_init_def)
  next
    case False
    let ?s' = "emit (CopyCtor this ?B b1)
                 (set_payload this (Some (?B, b1)) (set_tag this (tags ts ! j) ?sd))"
    have r: "assign ts P this ?B b1 s = Returns ?s'"
      using False by (simp add: a member_init_def)
    have h: "holds ts (mem ?s' this) ?B b1"
      by (simp add: holds_def t)
    have "variant_visitor P ts hs ?B b1 ?s' = Returns ((hs ! j) b1, emit (Call ?B b1) ?s')"
      using False by (simp only: variant_visitor_nth [OF assms(2-4)] if_False)
    then have "dispatch ts (variant_visitor P ts hs) this ?s' =
          Returns ((hs ! j) b1, emit (Call ?B b1) ?s')"
      by (simp only: dispatch_holds [OF assms(1) h])
    then show ?thesis using False r by simp
  qed
qed

theorem assign_replaces_witness:
  "holds three (mem held 0) 20 7 \<and> \<not> copy_throws ops 30 9 \<and> copy_throws ops 30 0 \<and>
   (\<exists>s'. assign three ops 0 30 9 held = Returns s' \<and>
         trace s' = [CopyCtor 0 20 7, Dtor 0 20 7, CopyCtor 0 30 9] \<and>
         tag (mem s' 0) = 0 \<and> payload (mem s' 0) = Some (30, 9) \<and>
         dispatch three (variant_visitor ops three handlers) 0 s' = Returns (309, emit (Call 30 9) s')) \<and>
   (\<exists>s'. assign three ops 0 30 0 held = Throws s' \<and> payload (mem s' 0) = None \<and>
         trace s' = [CopyCtor 0 20 7, Dtor 0 20 7])"
proof -
  have d: "distinct three" and l: "2 < length three" "length handlers = length three"
    by (simp_all add: three_def handlers_def)
  have n: "three ! 2 = 30" "tags three ! 2 = (0 :: 8 word)" "(handlers ! 2) 9 = 309"
    "trace held = [CopyCtor 0 20 7]"
    by (simp_all add: three_def handlers_def index_def held_def blank_def)
  have c: "\<not> copy_throws ops 30 9" "copy_throws ops 30 0"
    by (simp_all add: ops_def)
  note w = assign_replaces [OF instantiable_three d l holds_held, where P = ops, unfolded n]
  from w [of 9] c(1) obtain s1 where "assign three ops 0 30 9 held = Returns s1 \<and>
         trace s1 = [CopyCtor 0 20 7, Dtor 0 20 7, CopyCtor 0 30 9] \<and>
         tag (mem s1 0) = 0 \<and> payload (mem s1 0) = Some (30, 9) \<and>
         dispatch three (variant_visitor ops three handlers) 0 s1 = Returns (309, emit (Call 30 9) s1)"
    by (auto simp: n(3))
  moreover from w [of 0] c(2) obtain s2 where "assign three ops 0 30 0 held = Throws s2 \<and>
        payload (mem s2 0) = None \<and> trace s2 = [CopyCtor 0 20 7, Dtor 0 20 7]"
    by auto
  ultimately show ?thesis using holds_held c by blast
qed

text \<open>
  Claim C5. A default-constructed variant is empty. Constructing a variant from a value of
  an alternative (that its copy constructor accepts) returns a variant that is not empty;
  \<open>clear\<close> on it returns, the trace gains exactly one event, the destructor call of that
  payload, no payload is alive in the variant any more, and the variant is empty: its tag
  is \<open>invalid_index\<close>.
\<close>

theorem empty_after_default_and_clear:
  fixes s0 s :: "('a::len word, 't, 'v) state"
  assumes "instantiable TYPE('a) ts" and "T \<in> set ts" and "\<not> copy_throws P T x"
  shows "empty_variant this (ctor_default this s0) \<and>
         (\<exists>s1 s2. ctor_value ts P this T x s = Returns s1 \<and> \<not> empty_variant this s1 \<and>
               clear ts this s1 = Returns s2 \<and> empty_variant this s2 \<and>
               tag (mem s2 this) = invalid_index \<and> payload (mem s2 this) = None \<and>
               trace s2 = trace s @ [CopyCtor this T x, Dtor this T x])"
proof -
  from assms(2) obtain t :: "'a word" where t: "tag_of ts T = Some t"
    using tag_of_member by fastforce
  let ?s1 = "emit (CopyCtor this T x) (set_payload this (Some (T, x)) (set_tag this t s))"
  let ?s2 = "set_tag this invalid_index (emit (Dtor this T x) (set_payload this None ?s1))"
  have c: "ctor_value ts P this T x s = Returns ?s1"
    using t assms(3) by (rule ctor_value_Returns)
  then have h: "holds ts (mem ?s1 this) T x"
    by (rule ctor_value_holds)
  have ne: "\<not> empty_variant this ?s1"
    using tag_of_neq_invalid [OF t assms(1)] by (simp add: empty_variant_def)
  have cl: "clear ts this ?s1 = Returns ?s2"
    by (simp add: clear_def dtor_holds [OF assms(1) h])
  have "empty_variant this ?s2 \<and> tag (mem ?s2 this) = invalid_index \<and>
        payload (mem ?s2 this) = None \<and> trace ?s2 = trace s @ [CopyCtor this T x, Dtor this T x]"
    by (simp add: empty_variant_def)
  with c ne cl have "\<exists>s1 s2. ctor_value ts P this T x s = Returns s1 \<and> \<not> empty_variant this s1 \<and>
               clear ts this s1 = Returns s2 \<and> empty_variant this s2 \<and>
               tag (mem s2 this) = invalid_index \<and> payload (mem s2 this) = None \<and>
               trace s2 = trace s @ [CopyCtor this T x, Dtor this T x]"
    by blast
  moreover have "empty_variant this (ctor_default this s0)"
    by (simp add: empty_variant_def ctor_default_def)
  ultimately show ?thesis by blast
qed

theorem empty_after_default_and_clear_witness:
  "(20 :: nat) \<in> set three \<and> \<not> copy_throws ops 20 7 \<and>
   empty_variant 0 (ctor_default 0 blank) \<and>
   ctor_value three ops 0 20 7 blank = Returns held \<and> \<not> empty_variant 0 held \<and>
   clear three 0 held = Returns cleared \<and> empty_variant 0 cleared \<and>
   tag (mem cleared 0) = 255 \<and> payload (mem cleared 0) = None \<and>
   trace cleared = [CopyCtor 0 20 7, Dtor 0 20 7]"
proof -
  have m: "(20 :: nat) \<in> set three" by (simp add: three_def)
  have c: "\<not> copy_throws ops 20 7" by (simp add: ops_def)
  from empty_after_default_and_clear [OF instantiable_three m c, of 0 blank blank]
  obtain s1 s2 where "empty_variant 0 (ctor_default 0 blank)"
    and "ctor_value three ops 0 20 7 blank = Returns s1" and "\<not> empty_variant 0 s1"
    and "clear three 0 s1 = Returns s2" and "empty_variant 0 s2"
    and "tag (mem s2 0) = invalid_index" and "payload (mem s2 0) = None"
    and "trace s2 = trace blank @ [CopyCtor 0 20 7, Dtor 0 20 7]"
    by blast
  moreover have "trace blank = []" by (simp add: blank_def)
  ultimately show ?thesis
    using m c by (simp add: ctor_value_three clear_three invalid_index_8)
qed

text \<open>
  Claim C6. For every state of a variant whose type list compiles, \<open>clear\<close> followed by
  \<open>clear\<close> ends as a single \<open>clear\<close> does, with the same state. On a variant that is already
  empty, \<open>clear\<close> and the destructor it calls return the state as it was: nothing is written
  and the trace gains no destructor call.
\<close>

theorem clear_idempotent:
  fixes s :: "('a::len word, 't, 'v) state"
  assumes "instantiable TYPE('a) ts"
  shows "and_then (clear ts this s) (clear ts this) = clear ts this s \<and>
         (empty_variant this s \<longrightarrow> clear ts this s = Returns s \<and> dtor ts this s = Returns s)"
proof -
  have e: "clear ts this s' = Returns s' \<and> dtor ts this s' = Returns s'"
    if "empty_variant this s'" for s' :: "('a word, 't, 'v) state"
  proof -
    from that have t: "tag (mem s' this) = invalid_index" by (simp add: empty_variant_def)
    have "set_tag this invalid_index s' = s'"
      using set_tag_same [of this s'] t by simp
    then show ?thesis
      by (simp add: clear_def dtor_invalid [OF assms t])
  qed
  have "and_then (clear ts this s) (clear ts this) = clear ts this s"
  proof (cases "dtor ts this s")
    case (Returns s')
    have c: "clear ts this s = Returns (set_tag this invalid_index s')"
      by (simp add: clear_def Returns)
    have "empty_variant this (set_tag this invalid_index s')" by (simp add: empty_variant_def)
    from e [OF this] show ?thesis unfolding c by simp
  qed (simp_all add: clear_def)
  with e show ?thesis by simp
qed

theorem clear_idempotent_witness:
  "clear three 0 held = Returns cleared \<and> and_then (clear three 0 held) (clear three 0) = Returns cleared \<and>
   empty_variant 0 cleared \<and> clear three 0 cleared = Returns cleared \<and>
   dtor three 0 cleared = Returns cleared"
  using clear_idempotent [OF instantiable_three, of 0 held]
    clear_idempotent [OF instantiable_three, of 0 cleared]
  by (simp add: clear_three empty_cleared)

text \<open>
  Claim C7. Copy construction at an address other than the source's, from a source that
  holds the value \<open>x\<close> of the alternative \<open>T\<close> whose copy constructor does not throw:
  the new variant has the tag of the source and a payload of type \<open>T\<close> copy-constructed
  from \<open>x\<close> (one constructor call, at the new address), and the source is as it was.
  The copy is independent: however the copy is changed afterwards, by an assignment
  (whether it returns or throws), by \<open>clear\<close>, by its destructor or by being moved from
  into a third variant, the memory of the source stays the same.
  Payload values are values here: sharing inside a payload type (a pointer it holds) is the
  payload type's own.
\<close>

theorem copy_independent:
  fixes s :: "('a::len word, 't, 'v) state"
  assumes "instantiable TYPE('a) ts" and "holds ts (mem s rhs) T x" and "this \<noteq> rhs"
    and "\<not> copy_throws P T x"
  shows "\<exists>s1. ctor_copy ts P this rhs s = Returns s1 \<and>
           tag (mem s1 this) = tag (mem s rhs) \<and>
           payload (mem s1 this) = Some (T, x) \<and>
           trace s1 = trace s @ [CopyCtor this T x] \<and>
           mem s1 rhs = mem s rhs \<and>
           (\<forall>U y s2. assign ts P this U y s1 = Returns s2 \<or> assign ts P this U y s1 = Throws s2
              \<longrightarrow> mem s2 rhs = mem s rhs) \<and>
           (\<forall>s2. clear ts this s1 = Returns s2 \<longrightarrow> mem s2 rhs = mem s rhs) \<and>
           (\<forall>s2. dtor ts this s1 = Returns s2 \<longrightarrow> mem s2 rhs = mem s rhs) \<and>
           (\<forall>p s2. p \<noteq> rhs \<and>
               (ctor_move ts P p this s1 = Returns s2 \<or> ctor_move ts P p this s1 = Throws s2)
              \<longrightarrow> mem s2 rhs = mem s rhs)"
proof -
  let ?s1 = "emit (CopyCtor this T x)
               (set_payload this (Some (T, x)) (set_tag this (tag (mem s rhs)) s))"
  from assms(2) have p: "payload (mem s rhs) = Some (T, x)"
    by (simp add: holds_def)
  have c: "ctor_copy ts P this rhs s = Returns ?s1"
    using assms(3,4) p
    by (simp add: ctor_copy_holds [OF assms(1,2)] member_copy_def assert_tags_def)
  have m: "mem ?s1 rhs = mem s rhs"
    using assms(3) by simp
  have n: "rhs \<noteq> this"
    using assms(3) by blast
  have f1: "\<forall>U y s2. assign ts P this U y ?s1 = Returns s2 \<or> assign ts P this U y ?s1 = Throws s2
              \<longrightarrow> mem s2 rhs = mem s rhs"
  proof (intro allI impI)
    fix U y s2
    assume "assign ts P this U y ?s1 = Returns s2 \<or> assign ts P this U y ?s1 = Throws s2"
    from assign_frame [OF this n] have e: "mem s2 rhs = mem ?s1 rhs" .
    from e m show "mem s2 rhs = mem s rhs" by (rule trans)
  qed
  have f2: "\<forall>s2. clear ts this ?s1 = Returns s2 \<longrightarrow> mem s2 rhs = mem s rhs"
  proof (intro allI impI)
    fix s2
    assume "clear ts this ?s1 = Returns s2"
    from clear_frame [OF this n] have e: "mem s2 rhs = mem ?s1 rhs" .
    from e m show "mem s2 rhs = mem s rhs" by (rule trans)
  qed
  have f3: "\<forall>s2. dtor ts this ?s1 = Returns s2 \<longrightarrow> mem s2 rhs = mem s rhs"
  proof (intro allI impI)
    fix s2
    assume "dtor ts this ?s1 = Returns s2"
    from dtor_frame [OF this n] have e: "mem s2 rhs = mem ?s1 rhs" .
    from e m show "mem s2 rhs = mem s rhs" by (rule trans)
  qed
  have f4: "\<forall>p s2. p \<noteq> rhs \<and>
               (ctor_move ts P p this ?s1 = Returns s2 \<or> ctor_move ts P p this ?s1 = Throws s2)
              \<longrightarrow> mem s2 rhs = mem s rhs"
  proof (intro allI impI, elim conjE)
    fix p s2
    assume "p \<noteq> rhs"
      and "ctor_move ts P p this ?s1 = Returns s2 \<or> ctor_move ts P p this ?s1 = Throws s2"
    then have e: "mem s2 rhs = mem ?s1 rhs"
      using ctor_move_frame [of ts P p this ?s1 s2 rhs] n by blast
    from e m show "mem s2 rhs = mem s rhs" by (rule trans)
  qed
  have obs: "tag (mem ?s1 this) = tag (mem s rhs) \<and> payload (mem ?s1 this) = Some (T, x) \<and>
             trace ?s1 = trace s @ [CopyCtor this T x]"
    by simp
  from c obs m f1 f2 f3 f4 show ?thesis by blast
qed

theorem copy_independent_witness:
  "holds three (mem held 0) 20 7 \<and> (1 :: addr) \<noteq> 0 \<and> \<not> copy_throws ops 20 7 \<and>
   (\<exists>s1 s2. ctor_copy three ops 1 0 held = Returns s1 \<and>
       tag (mem s1 1) = 1 \<and> payload (mem s1 1) = Some (20, 7) \<and>
       trace s1 = [CopyCtor 0 20 7, CopyCtor 1 20 7] \<and> mem s1 0 = mem held 0 \<and>
       clear three 1 s1 = Returns s2 \<and> payload (mem s2 1) = None \<and>
       payload (mem s2 0) = Some (20, 7))"
proof -
  have c: "\<not> copy_throws ops 20 7" by (simp add: ops_def)
  have n: "(1 :: addr) \<noteq> 0" by simp
  have t: "tag (mem held 0) = 1" "trace held = [CopyCtor 0 20 7]" "payload (mem held 0) = Some (20, 7)"
    by (simp_all add: held_def blank_def)
  from copy_independent [OF instantiable_three holds_held n c]
  obtain s1 where s1: "ctor_copy three ops 1 0 held = Returns s1"
    "tag (mem s1 1) = 1" "payload (mem s1 1) = Some (20, 7)"
    "trace s1 = [CopyCtor 0 20 7, CopyCtor 1 20 7]" "mem s1 0 = mem held 0"
    and f: "\<And>s2. clear three 1 s1 = Returns s2 \<Longrightarrow> mem s2 0 = mem held 0"
    unfolding t by auto
  have "holds three (mem s1 1) 20 7"
    using s1(2,3) by (simp add: holds_def three_def index_def)
  from dtor_holds [OF instantiable_three this]
  have cl: "clear three 1 s1 = Returns (set_tag 1 invalid_index (emit (Dtor 1 20 7) (set_payload 1 None s1)))"
    by (simp add: clear_def)
  from f [OF cl] have "payload (mem (set_tag 1 invalid_index (emit (Dtor 1 20 7) (set_payload 1 None s1))) 0) = Some (20, 7)"
    by (simp only: t)
  with s1 cl holds_held c show ?thesis by auto
qed

text \<open>
  Claim C8. Move construction at an address other than the source's, from a source that
  holds the value \<open>x\<close> of any alternative \<open>T\<close> whose move constructor does not throw:
  the new variant has the tag of the source, the source keeps its tag and holds the
  moved-from value of type \<open>T\<close>. Destroying the source then returns, with exactly one
  destructor call, of type \<open>T\<close>, on the source's own payload; the payload of the new variant
  is untouched by it, and its own destruction later is again exactly one destructor call.
\<close>

theorem move_leaves_source_destructible:
  fixes s :: "('a::len word, 't, 'v) state"
  assumes "instantiable TYPE('a) ts" and "holds ts (mem s rhs) T x" and "this \<noteq> rhs"
    and "\<not> move_throws P T x"
  shows "\<exists>s1 s2 s3. ctor_move ts P this rhs s = Returns s1 \<and>
           tag (mem s1 this) = tag (mem s rhs) \<and> tag (mem s1 rhs) = tag (mem s rhs) \<and>
           payload (mem s1 this) = Some (T, x) \<and>
           payload (mem s1 rhs) = Some (T, moved_from P T x) \<and>
           trace s1 = trace s @ [MoveCtor this T x] \<and>
           dtor ts rhs s1 = Returns s2 \<and>
           trace s2 = trace s1 @ [Dtor rhs T (moved_from P T x)] \<and>
           payload (mem s2 rhs) = None \<and> mem s2 this = mem s1 this \<and>
           dtor ts this s2 = Returns s3 \<and>
           trace s3 = trace s2 @ [Dtor this T x]"
proof -
  let ?t = "tag (mem s rhs)"
  let ?s1 = "emit (MoveCtor this T x)
               (set_payload this (Some (T, x))
                 (set_payload rhs (Some (T, moved_from P T x)) (set_tag this ?t s)))"
  let ?s2 = "emit (Dtor rhs T (moved_from P T x)) (set_payload rhs None ?s1)"
  let ?s3 = "emit (Dtor this T x) (set_payload this None ?s2)"
  from assms(2) have p: "payload (mem s rhs) = Some (T, x)"
    and t: "tag_of ts T = Some ?t"
    by (simp_all add: holds_def)
  have c: "ctor_move ts P this rhs s = Returns ?s1"
    using assms(3,4) p
    by (simp add: ctor_move_holds [OF assms(1,2)] member_move_def assert_tags_def)
  have h1: "holds ts (mem ?s1 rhs) T (moved_from P T x)"
    using assms(3) t by (simp add: holds_def)
  have d1: "dtor ts rhs ?s1 = Returns ?s2"
    by (rule dtor_holds [OF assms(1) h1])
  have h2: "holds ts (mem ?s2 this) T x"
    using assms(3) t by (simp add: holds_def)
  have d2: "dtor ts this ?s2 = Returns ?s3"
    by (rule dtor_holds [OF assms(1) h2])
  have "tag (mem ?s1 this) = ?t \<and> tag (mem ?s1 rhs) = ?t \<and>
        payload (mem ?s1 this) = Some (T, x) \<and>
        payload (mem ?s1 rhs) = Some (T, moved_from P T x) \<and>
        trace ?s1 = trace s @ [MoveCtor this T x] \<and>
        trace ?s2 = trace ?s1 @ [Dtor rhs T (moved_from P T x)] \<and>
        payload (mem ?s2 rhs) = None \<and> mem ?s2 this = mem ?s1 this \<and>
        trace ?s3 = trace ?s2 @ [Dtor this T x]"
    using assms(3) by simp
  with c d1 d2 show ?thesis by blast
qed


theorem move_leaves_source_destructible_witness:
  "holds three (mem held 0) 20 7 \<and> (1 :: addr) \<noteq> 0 \<and> \<not> move_throws ops 20 7 \<and>
   (\<exists>s1 s2 s3. ctor_move three ops 1 0 held = Returns s1 \<and>
       tag (mem s1 1) = 1 \<and> tag (mem s1 0) = 1 \<and>
       payload (mem s1 1) = Some (20, 7) \<and> payload (mem s1 0) = Some (20, 0) \<and>
       dtor three 0 s1 = Returns s2 \<and>
       trace s2 = [CopyCtor 0 20 7, MoveCtor 1 20 7, Dtor 0 20 0] \<and>
       payload (mem s2 0) = None \<and> payload (mem s2 1) = Some (20, 7) \<and>
       dtor three 1 s2 = Returns s3 \<and>
       trace s3 = [CopyCtor 0 20 7, MoveCtor 1 20 7, Dtor 0 20 0, Dtor 1 20 7])"
proof -
  have c: "\<not> move_throws ops 20 7" by (simp add: ops_def)
  have n: "(1 :: addr) \<noteq> 0" by simp
  have t: "tag (mem held 0) = 1" "trace held = [CopyCtor 0 20 7]" "moved_from ops 20 7 = 0"
    by (simp_all add: held_def blank_def ops_def)
  from move_leaves_source_destructible [OF instantiable_three holds_held n c]
  obtain s1 s2 s3 where "ctor_move three ops 1 0 held = Returns s1 \<and>
       tag (mem s1 1) = 1 \<and> tag (mem s1 0) = 1 \<and>
       payload (mem s1 1) = Some (20, 7) \<and> payload (mem s1 0) = Some (20, 0) \<and>
       dtor three 0 s1 = Returns s2 \<and>
       trace s2 = [CopyCtor 0 20 7, MoveCtor 1 20 7, Dtor 0 20 0] \<and>
       payload (mem s2 0) = None \<and> payload (mem s2 1) = Some (20, 7) \<and>
       dtor three 1 s2 = Returns s3 \<and>
       trace s3 = [CopyCtor 0 20 7, MoveCtor 1 20 7, Dtor 0 20 0, Dtor 1 20 7]"
    unfolding t by auto
  with holds_held c show ?thesis by blast
qed

text \<open>
  Claim C9. Copy-constructing from an empty source is to be fatal, by assertion. The check
  that the copy constructor makes is its closing \<open>assert (head.tag == rhs.head.tag)\<close>; but
  from an empty source no alternative matches, no payload constructor runs, and nothing
  writes the tag of the variant under construction, so the assertion reads what the
  storage held before. Here the code misses the claim. At address 0 a variant has been
  constructed, cleared and destroyed, which leaves the tag byte at \<open>invalid_index\<close>; at
  address 2 there is a default-constructed, empty variant. Copy-constructing at address 0
  from the variant at address 2 returns and fails no assertion, and the new variant is
  empty. The storage holds the tag of the source already, so the outcome is the same
  whether or not the implicit copy of the empty union copies its one byte.
\<close>

theorem copy_of_empty_returns:
  "ctor_value three ops 0 20 7 blank = Returns held \<and>
   clear three 0 held = Returns cleared \<and>
   dtor three 0 cleared = Returns cleared \<and>
   empty_variant 2 (ctor_default 2 cleared) \<and>
   tag (mem (ctor_default 2 cleared) 0) = 255 \<and>
   ctor_copy three ops 0 2 (ctor_default 2 cleared) = Returns (ctor_default 2 cleared) \<and>
   ctor_copy three ops 0 2 (ctor_default 2 cleared) \<noteq> AssertionFailed \<and>
   empty_variant 0 (ctor_default 2 cleared)"
proof -
  have "ctor_copy three ops 0 2 (ctor_default 2 cleared) = Returns (ctor_default 2 cleared)"
    by (simp add: three_def ctor_default_def cleared_def held_def blank_def index_def
        invalid_index_8 assert_tags_def)
  moreover have "dtor three 0 cleared = Returns cleared"
    using empty_cleared by (simp add: dtor_invalid [OF instantiable_three] empty_variant_def)
  moreover have "tag (mem (ctor_default 2 cleared) 0) = 255"
    by (simp add: ctor_default_def cleared_def)
  ultimately show ?thesis
    by (simp add: empty_default_cleared ctor_value_three clear_three)
qed

text \<open>
  Claim C10. For a non-empty type list, every visitor and every state, \<open>s (v)\<close>,
  \<open>s.visit (v)\<close> and \<open>s.visit<R> () >>= v\<close> end alike: each is the same \<open>dispatch\<close>. On a
  variant that holds the value \<open>x\<close> of the alternative \<open>T\<close> it is the call of \<open>v\<close> on \<open>x\<close>.
\<close>

theorem entry_points_agree:
  fixes s :: "('a::len word, 't, 'v) state"
  shows "call_operator (Head # Tail) v this s = dispatch (Head # Tail) v this s \<and>
         visit (Head # Tail) v this s = call_operator (Head # Tail) v this s \<and>
         accept_bind (Head # Tail) (visit_accept this) v s = call_operator (Head # Tail) v this s \<and>
         (instantiable TYPE('a) (Head # Tail) \<and> holds (Head # Tail) (mem s this) T x \<longrightarrow>
            call_operator (Head # Tail) v this s = v T x s)"
  by (simp add: visit_accept_def dispatch_holds del: dispatch.simps)


theorem entry_points_agree_witness:
  "instantiable TYPE(8) (10 # [20, 30 :: nat]) \<and> holds (10 # [20, 30]) (mem held 0) 20 7 \<and>
   call_operator (10 # [20, 30]) (variant_visitor ops three handlers) 0 held = Returns (207, emit (Call 20 7) held) \<and>
   visit (10 # [20, 30]) (variant_visitor ops three handlers) 0 held = Returns (207, emit (Call 20 7) held) \<and>
   accept_bind (10 # [20, 30]) (visit_accept 0) (variant_visitor ops three handlers) held
     = Returns (207, emit (Call 20 7) held)"
proof -
  have i: "instantiable TYPE(8) (10 # [20, 30 :: nat])"
    using instantiable_three by (simp add: three_def)
  have h: "holds (10 # [20, 30]) (mem held 0) 20 7"
    using holds_held by (simp add: three_def)
  have v: "variant_visitor ops three handlers 20 7 held = Returns (207, emit (Call 20 7) held)"
    by (simp add: variant_visitor_def three_def handlers_def ops_def)
  from entry_points_agree [of 10 "[20, 30]" "variant_visitor ops three handlers" 0 held 20 7] i h
  show ?thesis by (simp only: v) simp
qed


end
